theory Spec2Isabelle
  imports Complex_Main "HOL-Library.AList"
begin

section \<open>JavaScript values\<close>

text \<open>
  A JavaScript \<open>number\<close>. Every number the scoring code computes is a quotient or a sum of
  small non-negative counts, so finite values are kept exactly, as rationals (rounding of
  doubles is not modelled; 0.5 and 1 are doubles). The values that a division by zero
  produces are kept as they are in IEEE arithmetic: \<open>x / 0\<close> is an infinity for \<open>x \<noteq> 0\<close>
  and \<open>0 / 0\<close> is NaN. Negative zero does not arise from counts and is not modelled.
\<close>

datatype jsnum = Fin rat | PosInf | NegInf | NaN

fun js_div :: "jsnum \<Rightarrow> jsnum \<Rightarrow> jsnum" where
  "js_div NaN y = NaN"
| "js_div x NaN = NaN"
| "js_div (Fin a) (Fin b) =
     (if b = 0 then (if a = 0 then NaN else if 0 < a then PosInf else NegInf)
      else Fin (a / b))"
| "js_div (Fin a) PosInf = Fin 0"
| "js_div (Fin a) NegInf = Fin 0"
| "js_div PosInf (Fin b) = (if 0 \<le> b then PosInf else NegInf)"
| "js_div NegInf (Fin b) = (if 0 \<le> b then NegInf else PosInf)"
| "js_div PosInf PosInf = NaN"
| "js_div PosInf NegInf = NaN"
| "js_div NegInf PosInf = NaN"
| "js_div NegInf NegInf = NaN"

fun js_add :: "jsnum \<Rightarrow> jsnum \<Rightarrow> jsnum" where
  "js_add NaN y = NaN"
| "js_add x NaN = NaN"
| "js_add (Fin a) (Fin b) = Fin (a + b)"
| "js_add (Fin a) PosInf = PosInf"
| "js_add (Fin a) NegInf = NegInf"
| "js_add PosInf (Fin b) = PosInf"
| "js_add NegInf (Fin b) = NegInf"
| "js_add PosInf PosInf = PosInf"
| "js_add NegInf NegInf = NegInf"
| "js_add PosInf NegInf = NaN"
| "js_add NegInf PosInf = NaN"

definition js_num :: "nat \<Rightarrow> jsnum" where
  "js_num n = Fin (of_nat n)"

text \<open>
  A JavaScript \<open>Set\<close> iterates in insertion order and \<open>add\<close> of a member changes nothing:
  a list without repetitions. A \<open>Map\<close> and the own properties of an object are association
  lists: \<open>map_of\<close> is \<open>get\<close>, \<open>AList.update\<close> is \<open>set\<close> (an existing key keeps its place, a
  new key goes last) and \<open>AList.map_entry\<close> is a mutation of the value stored under a key.
\<close>

definition set_add :: "'a \<Rightarrow> 'a list \<Rightarrow> 'a list" where
  "set_add x xs = (if x \<in> set xs then xs else xs @ [x])"

section \<open>Coverage data (istanbul-lib-coverage)\<close>

text \<open>
  \<open>CoverageStatus\<close> of CoverageOverlay: \<open>'covered' | 'partially-covered' | 'uncovered'\<close>.
\<close>

datatype CoverageStatus = Covered | PartiallyCovered | Uncovered

text \<open>
  A \<open>FileCoverage\<close> as the formatter reads it: the entries of \<open>fnMap\<close> in the order of
  \<open>Object.entries\<close>, each with the lines \<open>decl.start.line\<close> and \<open>decl.end.line\<close>; the hit
  counts \<open>f\<close> by function key; and the objects that the library methods
  \<open>getLineCoverage()\<close> and \<open>getBranchCoverageByLine()\<close> return, keyed by line. The two
  methods are library code, so their results are data of the model.
\<close>

record fn_decl =
  decl_start_line :: int
  decl_end_line :: int

record branch_line =
  branch_covered :: nat
  branch_total :: nat
  coverage :: jsnum

record FileCoverage =
  fnMap :: "(string \<times> fn_decl) list"
  f_hits :: "(string \<times> int) list"
  getLineCoverage :: "(int \<times> int) list"
  getBranchCoverageByLine :: "(int \<times> branch_line) list"

text \<open>The \<open>data\<close> object of a \<open>CoverageMap\<close>: file path to file coverage.\<close>

type_synonym CoverageMap = "(string \<times> FileCoverage) list"

datatype error = NoFileCoverage string

text \<open>
  \<open>createCoverageMap(obj)\<close> with \<open>obj\<close> absent is an empty map; \<open>files()\<close> lists the keys;
  \<open>fileCoverageFor(file)\<close> throws when the map has no entry for the file.
\<close>

definition createCoverageMap :: "CoverageMap option \<Rightarrow> CoverageMap" where
  "createCoverageMap obj = (case obj of None \<Rightarrow> [] | Some m \<Rightarrow> m)"

definition files :: "CoverageMap \<Rightarrow> string list" where
  "files m = map fst m"

definition fileCoverageFor :: "CoverageMap \<Rightarrow> string \<Rightarrow> error + FileCoverage" where
  "fileCoverageFor m file =
     (case map_of m file of None \<Rightarrow> Inl (NoFileCoverage file) | Some fc \<Rightarrow> Inr fc)"

section \<open>TestPatternsCoverageMapProvider\<close>

record TestPatternCoverage =
  fileCoverage :: "FileCoverage option"
  isPass :: "bool option"
  testPattern :: string

text \<open>
  The fields of the class. The source-map store \<open>mapStore\<close> is created by \<open>reset\<close> and never
  written by the class; its \<open>transformCoverage\<close> is library code and is the parameter \<open>tr\<close>
  of \<open>update\<close>. Coverage maps are values here: the caller is taken not to mutate a map it
  has handed over. The \<open>await\<close> in \<open>update\<close> is its only suspension point; calls are taken
  one at a time.
\<close>

record provider =
  fileNameToTestPatterns :: "(string \<times> string list) list"
  testPatternsToIsPass :: "(string \<times> bool) list"
  testPatternsToMap :: "(string \<times> CoverageMap) list"
  transformedMap :: CoverageMap

definition reset :: "provider \<Rightarrow> provider" where
  "reset s = s\<lparr>fileNameToTestPatterns := [], testPatternsToIsPass := [],
               testPatternsToMap := [], transformedMap := createCoverageMap None\<rparr>"

text \<open>The constructor only calls \<open>reset\<close>.\<close>

definition new_provider :: provider where
  "new_provider =
     reset \<lparr>fileNameToTestPatterns = [], testPatternsToIsPass = [],
            testPatternsToMap = [], transformedMap = []\<rparr>"

text \<open>
  \<open>setFileCoverage\<close> returns the state it leaves behind together with the error thrown,
  if any: the empty map for an unknown pattern is stored before \<open>fileCoverageFor\<close> can
  throw.
\<close>

definition setFileCoverage ::
  "string \<Rightarrow> string \<Rightarrow> CoverageMap \<Rightarrow> provider \<Rightarrow> error option \<times> provider" where
  "setFileCoverage tp filePath m s =
     (let s1 = (case map_of (testPatternsToMap s) tp of
                  None \<Rightarrow> s\<lparr>testPatternsToMap :=
                              AList.update tp (createCoverageMap None) (testPatternsToMap s)\<rparr>
                | Some cm \<Rightarrow> s)
      in case fileCoverageFor m filePath of
           Inl e \<Rightarrow> (Some e, s1)
         | Inr fc \<Rightarrow>
             (None, s1\<lparr>testPatternsToMap :=
                         AList.map_entry tp (AList.update filePath fc) (testPatternsToMap s1)\<rparr>))"

text \<open>
  The body of \<open>transformed.files().forEach\<close> in \<open>update\<close>: first the pattern is added to
  the file's set of the reverse index (a new set when the file has none), then
  \<open>setFileCoverage\<close> is called. The loop goes file by file; an error thrown by
  \<open>setFileCoverage\<close> ends it.
\<close>

definition registerTestPattern :: "string \<Rightarrow> string \<Rightarrow> provider \<Rightarrow> provider" where
  "registerTestPattern tp fileName s =
     (case map_of (fileNameToTestPatterns s) fileName of
        Some fileNameToTestPatternSet \<Rightarrow>
          s\<lparr>fileNameToTestPatterns :=
              AList.map_entry fileName (set_add tp) (fileNameToTestPatterns s)\<rparr>
      | None \<Rightarrow>
          s\<lparr>fileNameToTestPatterns :=
              AList.update fileName [tp] (fileNameToTestPatterns s)\<rparr>)"

fun updateFiles ::
  "string \<Rightarrow> CoverageMap \<Rightarrow> string list \<Rightarrow> provider \<Rightarrow> error option \<times> provider" where
  "updateFiles tp transformed [] s = (None, s)"
| "updateFiles tp transformed (fileName # rest) s =
     (case setFileCoverage tp fileName transformed (registerTestPattern tp fileName s) of
        (Some e, s2) \<Rightarrow> (Some e, s2)
      | (None, s2) \<Rightarrow> updateFiles tp transformed rest s2)"

definition update ::
  "(CoverageMap \<Rightarrow> CoverageMap) \<Rightarrow> string \<Rightarrow> bool \<Rightarrow> CoverageMap option \<Rightarrow> provider
     \<Rightarrow> error option \<times> provider" where
  "update tr tp pass obj s =
     (let s1 = s\<lparr>testPatternsToIsPass := AList.update tp pass (testPatternsToIsPass s)\<rparr>;
          m = createCoverageMap obj;
          transformed = tr m
      in case map_of (testPatternsToMap s1) tp of
           Some cm \<Rightarrow> updateFiles tp transformed (files transformed) s1
         | None \<Rightarrow>
             (None, s1\<lparr>testPatternsToMap :=
                         AList.update tp transformed (testPatternsToMap s1)\<rparr>))"

definition getTestPatternFileCoverage :: "provider \<Rightarrow> string \<Rightarrow> string \<Rightarrow> FileCoverage option" where
  "getTestPatternFileCoverage s tp filePath =
     (case map_of (testPatternsToMap s) tp of
        Some cm \<Rightarrow> map_of cm filePath
      | None \<Rightarrow> None)"

definition getTestPatternIsPass :: "provider \<Rightarrow> string \<Rightarrow> bool option" where
  "getTestPatternIsPass s tp = map_of (testPatternsToIsPass s) tp"

definition getFileCoverages :: "provider \<Rightarrow> string \<Rightarrow> TestPatternCoverage list" where
  "getFileCoverages s filePath =
     (let testPatternSet = (case map_of (fileNameToTestPatterns s) filePath of
                              Some ps \<Rightarrow> ps | None \<Rightarrow> [])
      in map (\<lambda>tp. \<lparr>fileCoverage = getTestPatternFileCoverage s tp filePath,
                    isPass = getTestPatternIsPass s tp,
                    testPattern = tp\<rparr>) testPatternSet)"

section \<open>AbstractFormatter\<close>

record LineHueCoverage =
  numOfFailedTests :: nat
  numOfPassTests :: nat
  hue :: "jsnum option"
  isCovered :: bool

text \<open>
  \<open>getFunctionCoverageByLine\<close>: every line of a declaration gets the hit count \<open>f[k]\<close> of
  its function, later entries of \<open>fnMap\<close> overwriting earlier ones. A missing \<open>f[k]\<close>
  assigns \<open>undefined\<close>, which the caller's \<open>fc != null\<close> does not tell from an absent line.
\<close>

definition assignLines :: "int option \<Rightarrow> int list \<Rightarrow> (int \<Rightarrow> int option) \<Rightarrow> (int \<Rightarrow> int option)" where
  "assignLines hits idxs lineCoverage = foldl (\<lambda>lc idx. lc(idx := hits)) lineCoverage idxs"

definition getFunctionCoverageByLine :: "FileCoverage \<Rightarrow> int \<Rightarrow> int option" where
  "getFunctionCoverageByLine fcov =
     foldl (\<lambda>lineCoverage (k, d).
              assignLines (map_of (f_hits fcov) k) [decl_start_line d .. decl_end_line d]
                lineCoverage)
       Map.empty (fnMap fcov)"

text \<open>The comparator handed to \<open>statusList.sort\<close>.\<close>

definition compareStatus :: "CoverageStatus \<Rightarrow> CoverageStatus \<Rightarrow> int" where
  "compareStatus s1 s2 =
     (if s1 = s2 then 0
      else case s1 of
             Covered \<Rightarrow> 1
           | PartiallyCovered \<Rightarrow> (if s2 = Covered then - 1 else 1)
           | Uncovered \<Rightarrow> - 1)"

text \<open>
  \<open>Array.prototype.sort\<close> with a comparator: a stable sort, here by insertion (an element
  goes before the first one it does not compare greater than).
\<close>

fun insertBy :: "('a \<Rightarrow> 'a \<Rightarrow> int) \<Rightarrow> 'a \<Rightarrow> 'a list \<Rightarrow> 'a list" where
  "insertBy cmp x [] = [x]"
| "insertBy cmp x (y # ys) = (if cmp x y \<le> 0 then x # y # ys else y # insertBy cmp x ys)"

definition sortBy :: "('a \<Rightarrow> 'a \<Rightarrow> int) \<Rightarrow> 'a list \<Rightarrow> 'a list" where
  "sortBy cmp xs = foldr (insertBy cmp) xs []"

text \<open>
  The candidate statuses of one entry at one line, in the order the code pushes them:
  function, branch, statement, then the caller's \<open>onNoCoverageInfo\<close> (the status it returns,
  when the callback is given) and at last \<open>'uncovered'\<close>, each of the last two only into
  an empty list.
\<close>

definition statusList :: "CoverageStatus option \<Rightarrow> FileCoverage \<Rightarrow> int \<Rightarrow> CoverageStatus list" where
  "statusList onNoCoverageInfo fcov line =
     (let lc = map_of (getLineCoverage fcov) line;
          bc = map_of (getBranchCoverageByLine fcov) line;
          fc = getFunctionCoverageByLine fcov line;
          l1 = (case fc of Some h \<Rightarrow> [if 0 < h then Covered else Uncovered] | None \<Rightarrow> []);
          l2 = (case bc of
                  Some b \<Rightarrow> l1 @ [if coverage b = Fin 0 then Uncovered else Covered]
                | None \<Rightarrow> l1);
          l3 = (case lc of Some h \<Rightarrow> l2 @ [if 0 < h then Covered else Uncovered] | None \<Rightarrow> l2);
          l4 = (if length l3 \<le> 0
                then (case onNoCoverageInfo of Some st \<Rightarrow> l3 @ [st] | None \<Rightarrow> l3)
                else l3)
      in if length l4 \<le> 0 then l4 @ [Uncovered] else l4)"

text \<open>\<open>statusList[0]\<close> after the sort (\<open>undefined\<close> on an empty array).\<close>

definition lineStatus :: "CoverageStatus option \<Rightarrow> FileCoverage \<Rightarrow> int \<Rightarrow> CoverageStatus option" where
  "lineStatus onNoCoverageInfo fcov line =
     (case sortBy compareStatus (statusList onNoCoverageInfo fcov line) of
        [] \<Rightarrow> None
      | status # rest \<Rightarrow> Some status)"

text \<open>
  The callback of \<open>fileCoverages.forEach\<close> for one line: the pair is
  \<open>(numOfPassTests, numOfFailedTests)\<close>.
\<close>

definition countEntry ::
  "CoverageStatus option \<Rightarrow> int \<Rightarrow> nat \<times> nat \<Rightarrow> TestPatternCoverage \<Rightarrow> nat \<times> nat" where
  "countEntry onNoCoverageInfo line acc c =
     (case fileCoverage c of
        None \<Rightarrow> acc
      | Some fcov \<Rightarrow>
          if lineStatus onNoCoverageInfo fcov line = Some Covered
          then (if isPass c = Some True then (fst acc + 1, snd acc) else (fst acc, snd acc + 1))
          else acc)"

definition totalSuccess :: "TestPatternCoverage list \<Rightarrow> nat" where
  "totalSuccess fileCoverages =
     foldl (\<lambda>p c. p + (if isPass c = Some True then 1 else 0)) 0 fileCoverages"

definition totalFailed :: "TestPatternCoverage list \<Rightarrow> nat" where
  "totalFailed fileCoverages =
     foldl (\<lambda>p c. p + (if isPass c = Some False then 1 else 0)) 0 fileCoverages"

text \<open>
  The \<open>hue\<close> of the second loop:
  \<open>0 + numOfPassTests / totalSuccess / (numOfPassTests / totalSuccess + numOfFailedTests / totalFailed)\<close>
  for a covered line, \<open>undefined\<close> otherwise.
\<close>

definition hueOf :: "nat \<Rightarrow> nat \<Rightarrow> LineHueCoverage \<Rightarrow> jsnum option" where
  "hueOf tSuccess tFailed currentHue =
     (if isCovered currentHue
      then Some (js_add (Fin 0)
                  (js_div (js_div (js_num (numOfPassTests currentHue)) (js_num tSuccess))
                     (js_add (js_div (js_num (numOfPassTests currentHue)) (js_num tSuccess))
                        (js_div (js_num (numOfFailedTests currentHue)) (js_num tFailed)))))
      else None)"

definition firstPass ::
  "CoverageStatus option \<Rightarrow> TestPatternCoverage list \<Rightarrow> int \<Rightarrow> int \<times> LineHueCoverage" where
  "firstPass onNoCoverageInfo fileCoverages line =
     (let acc = foldl (countEntry onNoCoverageInfo line) (0, 0) fileCoverages
      in (line, \<lparr>numOfFailedTests = snd acc, numOfPassTests = fst acc, hue = None,
                 isCovered = (0 < snd acc + fst acc)\<rparr>))"

text \<open>
  \<open>lineCoverages(editor, onNoCoverageInfo)\<close>; of the editor the code reads
  \<open>document.fileName\<close> and \<open>document.lineCount\<close>. The result is the \<open>Map\<close> from line to
  record, in insertion order.
\<close>

definition lineCoverages ::
  "provider \<Rightarrow> string \<Rightarrow> int \<Rightarrow> CoverageStatus option \<Rightarrow> (int \<times> LineHueCoverage) list" where
  "lineCoverages s fileName lineCount onNoCoverageInfo =
     (let fileCoverages = getFileCoverages s fileName;
          tSuccess = totalSuccess fileCoverages;
          tFailed = totalFailed fileCoverages;
          lineToCoverage = map (firstPass onNoCoverageInfo fileCoverages) [1 .. lineCount]
      in map (\<lambda>(line, currentHue). (line, currentHue\<lparr>hue := hueOf tSuccess tFailed currentHue\<rparr>))
           lineToCoverage)"

section \<open>Invariants and reachable states\<close>

text \<open>
  Every pattern listed in the reverse index has an entry in the pattern table
  (\<open>indexInTable\<close>) and a recorded verdict (\<open>indexHasVerdict\<close>).
\<close>

definition indexInTable :: "provider \<Rightarrow> bool" where
  "indexInTable s =
     (\<forall>(fileName, ps) \<in> set (fileNameToTestPatterns s).
        \<forall>tp \<in> set ps. map_of (testPatternsToMap s) tp \<noteq> None)"

definition indexHasVerdict :: "provider \<Rightarrow> bool" where
  "indexHasVerdict s =
     (\<forall>(fileName, ps) \<in> set (fileNameToTestPatterns s).
        \<forall>tp \<in> set ps. map_of (testPatternsToIsPass s) tp \<noteq> None)"

text \<open>
  The states of a provider: the constructor's, and any state after a call of one of the
  public mutating methods, whether the call returned or threw.
\<close>

inductive reachable :: "(CoverageMap \<Rightarrow> CoverageMap) \<Rightarrow> provider \<Rightarrow> bool"
  for tr :: "CoverageMap \<Rightarrow> CoverageMap" where
  constructed: "reachable tr new_provider"
| after_update: "reachable tr s \<Longrightarrow> reachable tr (snd (update tr tp pass obj s))"
| after_setFileCoverage: "reachable tr s \<Longrightarrow> reachable tr (snd (setFileCoverage tp filePath m s))"
| after_reset: "reachable tr s \<Longrightarrow> reachable tr (reset s)"

section \<open>Example data\<close>

text \<open>
  A file \<open>f\<close> under two reports: report \<open>A\<close> hits the statements at lines 10 and 20, report
  \<open>B\<close> the statement at line 10 only.
\<close>

definition fcA :: FileCoverage where
  "fcA = \<lparr>fnMap = [], f_hits = [], getLineCoverage = [(10, 1), (20, 1)], getBranchCoverageByLine = []\<rparr>"
definition fcB :: FileCoverage where
  "fcB = \<lparr>fnMap = [], f_hits = [], getLineCoverage = [(10, 1)], getBranchCoverageByLine = []\<rparr>"

definition covA :: CoverageMap where "covA = [(''f'', fcA)]"
definition covB :: CoverageMap where "covB = [(''f'', fcB)]"

definition storeA1 :: provider where
  "storeA1 = snd (update id ''A'' True (Some covA) new_provider)"
definition storeA2 :: provider where
  "storeA2 = snd (update id ''A'' True (Some covA) storeA1)"

text \<open>
  A file whose line 2 lies in a function that was never called (lines 1 to 3, hit count 0)
  and holds a statement with hit count 5, and an entry of a passing pattern for it.
\<close>

definition fcFn :: FileCoverage where
  "fcFn = \<lparr>fnMap = [(''0'', \<lparr>decl_start_line = 1, decl_end_line = 3\<rparr>)], f_hits = [(''0'', 0)],
           getLineCoverage = [(2, 5)], getBranchCoverageByLine = []\<rparr>"

definition entryFn :: TestPatternCoverage where
  "entryFn = \<lparr>fileCoverage = Some fcFn, isPass = Some True, testPattern = ''A''\<rparr>"

text \<open>
  Pattern \<open>A\<close> passes with report \<open>covA\<close> and pattern \<open>B\<close> fails with report \<open>covB\<close>: the store
  after each has reported once, and after each has reported twice; and the record expected
  for line 10.
\<close>

definition storeAB1 :: provider where
  "storeAB1 = snd (update id ''B'' False (Some covB) (snd (update id ''A'' True (Some covA) new_provider)))"

definition storeAB2 :: provider where
  "storeAB2 = snd (update id ''B'' False (Some covB) (snd (update id ''A'' True (Some covA) storeAB1)))"

definition row10 :: LineHueCoverage where
  "row10 = \<lparr>numOfFailedTests = 1, numOfPassTests = 1, hue = Some (Fin (1 / 2)), isCovered = True\<rparr>"

section \<open>The specification's notions\<close>

text \<open>
  The severity order of the specification: \<open>uncovered\<close> dominates \<open>partially-covered\<close>, which
  dominates \<open>covered\<close>.
\<close>

definition severity :: "CoverageStatus \<Rightarrow> nat" where
  "severity st = (case st of Uncovered \<Rightarrow> 2 | PartiallyCovered \<Rightarrow> 1 | Covered \<Rightarrow> 0)"

text \<open>
  The denominators of the specification: the numbers of contributing entries of the file
  whose verdict is pass and whose verdict is fail.
\<close>

definition totalPassedRuns :: "TestPatternCoverage list \<Rightarrow> nat" where
  "totalPassedRuns entries = length (filter (\<lambda>c. isPass c = Some True) entries)"

definition totalFailedRuns :: "TestPatternCoverage list \<Rightarrow> nat" where
  "totalFailedRuns entries = length (filter (\<lambda>c. isPass c = Some False) entries)"

text \<open>
  The score of the specification,
  \<open>(numPassedRuns / totalPassedRuns) / ((numPassedRuns / totalPassedRuns) + (numFailedRuns / totalFailedRuns))\<close>.
\<close>

definition score :: "nat \<Rightarrow> nat \<Rightarrow> nat \<Rightarrow> nat \<Rightarrow> jsnum" where
  "score numPassedRuns tPassedRuns numFailedRuns tFailedRuns =
     js_div (js_div (js_num numPassedRuns) (js_num tPassedRuns))
       (js_add (js_div (js_num numPassedRuns) (js_num tPassedRuns))
               (js_div (js_num numFailedRuns) (js_num tFailedRuns)))"

section \<open>Properties of the coverage store\<close>

lemma set_update_cases:
  "(a, b) \<in> set (AList.update k v al) \<Longrightarrow> (a, b) \<in> set al \<or> (a = k \<and> b = v)"
  by (induction al) (auto split: if_splits)

lemma set_map_entry_cases:
  "(a, b) \<in> set (AList.map_entry k g al) \<Longrightarrow>
     (a, b) \<in> set al \<or> (a = k \<and> (\<exists>v. (k, v) \<in> set al \<and> b = g v))"
  by (induction al) (auto split: if_splits)

lemma set_set_add: "set (set_add x xs) = insert x (set xs)"
  by (auto simp: set_add_def)

lemma setFileCoverage_index:
  "fileNameToTestPatterns (snd (setFileCoverage tp fp m s)) = fileNameToTestPatterns s"
  by (simp add: setFileCoverage_def Let_def split: option.splits sum.splits)

lemma setFileCoverage_verdicts:
  "testPatternsToIsPass (snd (setFileCoverage tp fp m s)) = testPatternsToIsPass s"
  by (simp add: setFileCoverage_def Let_def split: option.splits sum.splits)

lemma setFileCoverage_table_mono:
  "map_of (testPatternsToMap s) q \<noteq> None \<Longrightarrow>
     map_of (testPatternsToMap (snd (setFileCoverage tp fp m s))) q \<noteq> None"
  by (auto simp: setFileCoverage_def Let_def AList.update_conv' AList.map_of_map_entry
      split: option.splits sum.splits)

lemma setFileCoverage_table_self:
  "map_of (testPatternsToMap (snd (setFileCoverage tp fp m s))) tp \<noteq> None"
  by (auto simp: setFileCoverage_def Let_def AList.update_conv' AList.map_of_map_entry
      split: option.splits sum.splits)

lemma setFileCoverage_ok:
  "map_of m fp = Some fc \<Longrightarrow> fst (setFileCoverage tp fp m s) = None"
  by (simp add: setFileCoverage_def Let_def fileCoverageFor_def split: option.splits)

lemma setFileCoverage_stored:
  "map_of m fp = Some fc \<Longrightarrow>
     getTestPatternFileCoverage (snd (setFileCoverage tp fp m s)) tp fp = Some fc"
  by (auto simp: setFileCoverage_def Let_def fileCoverageFor_def getTestPatternFileCoverage_def
      AList.update_conv' AList.map_of_map_entry createCoverageMap_def split: option.splits)

lemma setFileCoverage_other:
  "tp' \<noteq> tp \<or> fp' \<noteq> fp \<Longrightarrow>
     getTestPatternFileCoverage (snd (setFileCoverage tp fp m s)) tp' fp' =
     getTestPatternFileCoverage s tp' fp'"
  by (auto simp: setFileCoverage_def Let_def fileCoverageFor_def getTestPatternFileCoverage_def
      AList.update_conv' AList.map_of_map_entry createCoverageMap_def split: option.splits sum.splits)

lemma indexInTableD:
  "indexInTable s \<Longrightarrow> (a, ps) \<in> set (fileNameToTestPatterns s) \<Longrightarrow> q \<in> set ps \<Longrightarrow>
     map_of (testPatternsToMap s) q \<noteq> None"
  unfolding indexInTable_def by fast

lemma indexHasVerdictD:
  "indexHasVerdict s \<Longrightarrow> (a, ps) \<in> set (fileNameToTestPatterns s) \<Longrightarrow> q \<in> set ps \<Longrightarrow>
     map_of (testPatternsToIsPass s) q \<noteq> None"
  unfolding indexHasVerdict_def by fast

lemma indexInTableI:
  "(\<And>a ps q. (a, ps) \<in> set (fileNameToTestPatterns s) \<Longrightarrow> q \<in> set ps \<Longrightarrow>
      map_of (testPatternsToMap s) q \<noteq> None) \<Longrightarrow> indexInTable s"
  unfolding indexInTable_def by fast

lemma indexHasVerdictI:
  "(\<And>a ps q. (a, ps) \<in> set (fileNameToTestPatterns s) \<Longrightarrow> q \<in> set ps \<Longrightarrow>
      map_of (testPatternsToIsPass s) q \<noteq> None) \<Longrightarrow> indexHasVerdict s"
  unfolding indexHasVerdict_def by fast

lemma register_table: "testPatternsToMap (registerTestPattern tp fn s) = testPatternsToMap s"
  by (simp add: registerTestPattern_def split: option.splits)

lemma register_verdicts: "testPatternsToIsPass (registerTestPattern tp fn s) = testPatternsToIsPass s"
  by (simp add: registerTestPattern_def split: option.splits)

lemma register_coverage:
  "getTestPatternFileCoverage (registerTestPattern tp fn s) q fp = getTestPatternFileCoverage s q fp"
  by (simp add: getTestPatternFileCoverage_def register_table)

lemma register_entries:
  assumes "(a, ps) \<in> set (fileNameToTestPatterns (registerTestPattern tp fn s))"
  shows "(a, ps) \<in> set (fileNameToTestPatterns s) \<or> ps = [tp]
         \<or> (\<exists>ps0. (a, ps0) \<in> set (fileNameToTestPatterns s) \<and> set ps = insert tp (set ps0))"
proof (cases "map_of (fileNameToTestPatterns s) fn")
  case None
  with assms show ?thesis
    by (auto simp: registerTestPattern_def dest: set_update_cases)
next
  case (Some ps1)
  with assms show ?thesis
    by (auto simp: registerTestPattern_def set_set_add dest!: set_map_entry_cases)
qed

lemma register_lookup_self:
  "\<exists>ps. map_of (fileNameToTestPatterns (registerTestPattern tp fn s)) fn = Some ps \<and> tp \<in> set ps"
  by (auto simp: registerTestPattern_def AList.update_conv' AList.map_of_map_entry set_set_add
      split: option.splits)

lemma register_lookup_mono:
  "map_of (fileNameToTestPatterns s) a = Some ps \<Longrightarrow>
     \<exists>ps'. map_of (fileNameToTestPatterns (registerTestPattern tp fn s)) a = Some ps'
            \<and> set ps \<subseteq> set ps'"
  by (auto simp: registerTestPattern_def AList.update_conv' AList.map_of_map_entry set_set_add
      split: option.splits)

lemma updateFiles_verdicts:
  "testPatternsToIsPass (snd (updateFiles tp m fs s)) = testPatternsToIsPass s"
proof (induction fs arbitrary: s)
  case Nil
  show ?case by simp
next
  case (Cons fn rest)
  obtain r s2 where step: "setFileCoverage tp fn m (registerTestPattern tp fn s) = (r, s2)"
    by (cases "setFileCoverage tp fn m (registerTestPattern tp fn s)")
  have "testPatternsToIsPass s2 = testPatternsToIsPass s"
    using setFileCoverage_verdicts [of tp fn m "registerTestPattern tp fn s"] step
    by (simp add: register_verdicts)
  with Cons.IH [of s2] step show ?case
    by (cases r) simp_all
qed

lemma updateFiles_ok:
  "set fs \<subseteq> fst ` set m \<Longrightarrow> fst (updateFiles tp m fs s) = None"
proof (induction fs arbitrary: s)
  case Nil
  show ?case by simp
next
  case (Cons fn rest)
  from Cons.prems obtain fc where fc: "map_of m fn = Some fc"
    by (cases "map_of m fn") (auto simp: map_of_eq_None_iff)
  obtain r s2 where step: "setFileCoverage tp fn m (registerTestPattern tp fn s) = (r, s2)"
    by (cases "setFileCoverage tp fn m (registerTestPattern tp fn s)")
  with setFileCoverage_ok [OF fc, of tp "registerTestPattern tp fn s"] have "r = None"
    by simp
  with Cons step show ?case by simp
qed

lemma updateFiles_table_mono:
  "map_of (testPatternsToMap s) q \<noteq> None \<Longrightarrow>
     map_of (testPatternsToMap (snd (updateFiles tp m fs s))) q \<noteq> None"
proof (induction fs arbitrary: s)
  case Nil
  then show ?case by simp
next
  case (Cons fn rest)
  obtain r s2 where step: "setFileCoverage tp fn m (registerTestPattern tp fn s) = (r, s2)"
    by (cases "setFileCoverage tp fn m (registerTestPattern tp fn s)")
  have "map_of (testPatternsToMap s2) q \<noteq> None"
    using setFileCoverage_table_mono [of "registerTestPattern tp fn s" q tp fn m] step Cons.prems
    by (simp add: register_table)
  with Cons.IH [of s2] step show ?case
    by (cases r) simp_all
qed

lemma updateFiles_preserves:
  assumes "P s"
    and "\<And>fn s. P s \<Longrightarrow> P (snd (setFileCoverage tp fn m (registerTestPattern tp fn s)))"
  shows "P (snd (updateFiles tp m fs s))"
  using assms(1)
proof (induction fs arbitrary: s)
  case Nil
  then show ?case by simp
next
  case (Cons fn rest)
  obtain r s2 where step: "setFileCoverage tp fn m (registerTestPattern tp fn s) = (r, s2)"
    by (cases "setFileCoverage tp fn m (registerTestPattern tp fn s)")
  have "P s2"
    using assms(2) [OF Cons.prems, of fn] step by simp
  with Cons.IH [of s2] step show ?case
    by (cases r) simp_all
qed

lemma step_indexInTable:
  assumes "indexInTable s" and "map_of (testPatternsToMap s) tp \<noteq> None"
  shows "indexInTable (snd (setFileCoverage tp fn m (registerTestPattern tp fn s)))"
proof (rule indexInTableI)
  fix a ps q
  let ?s1 = "registerTestPattern tp fn s"
  let ?s2 = "snd (setFileCoverage tp fn m ?s1)"
  assume "(a, ps) \<in> set (fileNameToTestPatterns ?s2)" and q: "q \<in> set ps"
  then have "(a, ps) \<in> set (fileNameToTestPatterns ?s1)"
    by (simp add: setFileCoverage_index)
  from register_entries [OF this] q assms
  have "map_of (testPatternsToMap s) q \<noteq> None"
    by (auto dest: indexInTableD)
  then show "map_of (testPatternsToMap ?s2) q \<noteq> None"
    using setFileCoverage_table_mono [of ?s1 q tp fn m] by (simp add: register_table)
qed

lemma step_indexHasVerdict:
  assumes "indexHasVerdict s" and "map_of (testPatternsToIsPass s) tp \<noteq> None"
  shows "indexHasVerdict (snd (setFileCoverage tp fn m (registerTestPattern tp fn s)))"
proof (rule indexHasVerdictI)
  fix a ps q
  let ?s1 = "registerTestPattern tp fn s"
  let ?s2 = "snd (setFileCoverage tp fn m ?s1)"
  assume "(a, ps) \<in> set (fileNameToTestPatterns ?s2)" and q: "q \<in> set ps"
  then have "(a, ps) \<in> set (fileNameToTestPatterns ?s1)"
    by (simp add: setFileCoverage_index)
  from register_entries [OF this] q assms
  have "map_of (testPatternsToIsPass s) q \<noteq> None"
    by (auto dest: indexHasVerdictD)
  then show "map_of (testPatternsToIsPass ?s2) q \<noteq> None"
    by (simp add: setFileCoverage_verdicts register_verdicts)
qed

lemma updateFiles_indexInTable:
  assumes "indexInTable s" and "map_of (testPatternsToMap s) tp \<noteq> None"
  shows "indexInTable (snd (updateFiles tp m fs s))"
proof -
  let ?P = "\<lambda>s. indexInTable s \<and> map_of (testPatternsToMap s) tp \<noteq> None"
  have "?P (snd (updateFiles tp m fs s))"
  proof (rule updateFiles_preserves [where P = ?P])
    show "?P s" using assms by simp
  next
    fix fn and s :: provider assume "?P s"
    then show "?P (snd (setFileCoverage tp fn m (registerTestPattern tp fn s)))"
      by (simp add: step_indexInTable setFileCoverage_table_self)
  qed
  then show ?thesis by simp
qed

lemma updateFiles_indexHasVerdict:
  assumes "indexHasVerdict s" and "map_of (testPatternsToIsPass s) tp \<noteq> None"
  shows "indexHasVerdict (snd (updateFiles tp m fs s))"
proof -
  let ?P = "\<lambda>s. indexHasVerdict s \<and> map_of (testPatternsToIsPass s) tp \<noteq> None"
  have "?P (snd (updateFiles tp m fs s))"
  proof (rule updateFiles_preserves [where P = ?P])
    show "?P s" using assms by simp
  next
    fix fn and s :: provider assume "?P s"
    then show "?P (snd (setFileCoverage tp fn m (registerTestPattern tp fn s)))"
      by (simp add: step_indexHasVerdict setFileCoverage_verdicts register_verdicts)
  qed
  then show ?thesis by simp
qed

lemma updateFiles_lookup_mono:
  assumes "\<exists>ps. map_of (fileNameToTestPatterns s) a = Some ps \<and> q \<in> set ps"
  shows "\<exists>ps. map_of (fileNameToTestPatterns (snd (updateFiles tp m fs s))) a = Some ps \<and> q \<in> set ps"
proof (rule updateFiles_preserves
    [where P = "\<lambda>s. \<exists>ps. map_of (fileNameToTestPatterns s) a = Some ps \<and> q \<in> set ps"])
  show "\<exists>ps. map_of (fileNameToTestPatterns s) a = Some ps \<and> q \<in> set ps"
    by (rule assms)
next
  fix fn and s :: provider
  assume "\<exists>ps. map_of (fileNameToTestPatterns s) a = Some ps \<and> q \<in> set ps"
  then obtain ps where ps: "map_of (fileNameToTestPatterns s) a = Some ps" and "q \<in> set ps"
    by blast
  with register_lookup_mono [OF ps, of tp fn]
  show "\<exists>ps. map_of (fileNameToTestPatterns
            (snd (setFileCoverage tp fn m (registerTestPattern tp fn s)))) a = Some ps \<and> q \<in> set ps"
    by (auto simp: setFileCoverage_index)
qed

lemma updateFiles_registers:
  "a \<in> set fs \<Longrightarrow> fst (updateFiles tp m fs s) = None \<Longrightarrow>
     \<exists>ps. map_of (fileNameToTestPatterns (snd (updateFiles tp m fs s))) a = Some ps \<and> tp \<in> set ps"
proof (induction fs arbitrary: s)
  case Nil
  then show ?case by simp
next
  case (Cons fn rest)
  let ?s1 = "registerTestPattern tp fn s"
  obtain r s2 where step: "setFileCoverage tp fn m ?s1 = (r, s2)"
    by (cases "setFileCoverage tp fn m ?s1")
  with Cons.prems(2) have r: "r = None"
    by (cases r) simp_all
  have idx: "fileNameToTestPatterns s2 = fileNameToTestPatterns ?s1"
    using setFileCoverage_index [of tp fn m ?s1] step by simp
  show ?case
  proof (cases "a = fn")
    case True
    have "\<exists>ps. map_of (fileNameToTestPatterns s2) a = Some ps \<and> tp \<in> set ps"
      using register_lookup_self [of tp fn s] idx True by simp
    from updateFiles_lookup_mono [OF this, of tp m rest] step r show ?thesis by simp
  next
    case False
    with Cons.prems(1) have "a \<in> set rest" by simp
    moreover have "fst (updateFiles tp m rest s2) = None"
      using Cons.prems(2) step r by simp
    ultimately show ?thesis
      using Cons.IH [of s2] step r by simp
  qed
qed

lemma updateFiles_keeps_stored:
  assumes "getTestPatternFileCoverage s tp a = map_of m a"
  shows "getTestPatternFileCoverage (snd (updateFiles tp m fs s)) tp a = map_of m a"
proof (rule updateFiles_preserves [where P = "\<lambda>s. getTestPatternFileCoverage s tp a = map_of m a"])
  show "getTestPatternFileCoverage s tp a = map_of m a" by (rule assms)
next
  fix fn and s :: provider
  assume old: "getTestPatternFileCoverage s tp a = map_of m a"
  let ?s1 = "registerTestPattern tp fn s"
  show "getTestPatternFileCoverage (snd (setFileCoverage tp fn m ?s1)) tp a = map_of m a"
  proof (cases "a = fn \<and> map_of m fn \<noteq> None")
    case True
    then obtain fc where "map_of m fn = Some fc" by auto
    from setFileCoverage_stored [OF this, of tp ?s1] True this show ?thesis by simp
  next
    case False
    show ?thesis
    proof (cases "a = fn")
      case True
      with False have none: "map_of m fn = None" by simp
      then have "getTestPatternFileCoverage (snd (setFileCoverage tp fn m ?s1)) tp fn =
                 getTestPatternFileCoverage ?s1 tp fn"
        by (auto simp: setFileCoverage_def Let_def fileCoverageFor_def
            getTestPatternFileCoverage_def AList.update_conv' createCoverageMap_def
            split: option.splits)
      with old True show ?thesis by (simp add: register_coverage)
    next
      case False
      then show ?thesis
        using setFileCoverage_other [of tp tp a fn m ?s1] old by (simp add: register_coverage)
    qed
  qed
qed

lemma updateFiles_stored:
  "a \<in> set fs \<Longrightarrow> fst (updateFiles tp m fs s) = None \<Longrightarrow>
     getTestPatternFileCoverage (snd (updateFiles tp m fs s)) tp a = map_of m a"
proof (induction fs arbitrary: s)
  case Nil
  then show ?case by simp
next
  case (Cons fn rest)
  let ?s1 = "registerTestPattern tp fn s"
  obtain r s2 where step: "setFileCoverage tp fn m ?s1 = (r, s2)"
    by (cases "setFileCoverage tp fn m ?s1")
  with Cons.prems(2) have r: "r = None"
    by (cases r) simp_all
  show ?case
  proof (cases "a = fn")
    case True
    from step r have "fileCoverageFor m fn \<noteq> Inl (NoFileCoverage fn)"
      by (auto simp: setFileCoverage_def Let_def split: sum.splits)
    then obtain fc where fc: "map_of m fn = Some fc"
      by (cases "map_of m fn") (auto simp: fileCoverageFor_def)
    have "getTestPatternFileCoverage s2 tp a = map_of m a"
      using setFileCoverage_stored [OF fc, of tp ?s1] step True fc by simp
    from updateFiles_keeps_stored [OF this, of rest] step r show ?thesis by simp
  next
    case False
    with Cons.prems(1) have "a \<in> set rest" by simp
    moreover have "fst (updateFiles tp m rest s2) = None"
      using Cons.prems(2) step r by simp
    ultimately show ?thesis
      using Cons.IH [of s2] step r by simp
  qed
qed

lemma updateFiles_other_pattern:
  assumes "q \<noteq> tp"
  shows "getTestPatternFileCoverage (snd (updateFiles tp m fs s)) q a = getTestPatternFileCoverage s q a"
proof -
  define v where "v = getTestPatternFileCoverage s q a"
  have "getTestPatternFileCoverage (snd (updateFiles tp m fs s)) q a = v"
  proof (rule updateFiles_preserves [where P = "\<lambda>s. getTestPatternFileCoverage s q a = v"])
    show "getTestPatternFileCoverage s q a = v" by (simp add: v_def)
  next
    fix fn and s :: provider
    assume "getTestPatternFileCoverage s q a = v"
    then show "getTestPatternFileCoverage
                 (snd (setFileCoverage tp fn m (registerTestPattern tp fn s))) q a = v"
      using assms setFileCoverage_other [of q tp a fn m "registerTestPattern tp fn s"]
      by (simp add: register_coverage)
  qed
  then show ?thesis by (simp add: v_def)
qed

lemma update_verdicts:
  "testPatternsToIsPass (snd (update tr tp pass obj s)) = AList.update tp pass (testPatternsToIsPass s)"
  by (simp add: update_def Let_def updateFiles_verdicts split: option.splits)

lemma update_fresh:
  "map_of (testPatternsToMap s) tp = None \<Longrightarrow>
     update tr tp pass obj s =
       (None, s\<lparr>testPatternsToIsPass := AList.update tp pass (testPatternsToIsPass s),
                testPatternsToMap := AList.update tp (tr (createCoverageMap obj)) (testPatternsToMap s)\<rparr>)"
  by (simp add: update_def Let_def)

lemma update_known:
  "map_of (testPatternsToMap s) tp = Some cm \<Longrightarrow>
     update tr tp pass obj s =
       updateFiles tp (tr (createCoverageMap obj)) (files (tr (createCoverageMap obj)))
         (s\<lparr>testPatternsToIsPass := AList.update tp pass (testPatternsToIsPass s)\<rparr>)"
  by (simp add: update_def Let_def)

lemma update_ok: "fst (update tr tp pass obj s) = None"
  by (cases "map_of (testPatternsToMap s) tp")
     (simp_all add: update_fresh update_known updateFiles_ok files_def)

lemma update_table_self: "map_of (testPatternsToMap (snd (update tr tp pass obj s))) tp \<noteq> None"
proof (cases "map_of (testPatternsToMap s) tp")
  case None
  then show ?thesis by (simp add: update_fresh AList.update_conv')
next
  case (Some cm)
  then show ?thesis by (simp add: update_known updateFiles_table_mono)
qed

lemma update_indexInTable:
  assumes "indexInTable s"
  shows "indexInTable (snd (update tr tp pass obj s))"
proof (cases "map_of (testPatternsToMap s) tp")
  case None
  show ?thesis
  proof (rule indexInTableI)
    fix a ps q
    assume "(a, ps) \<in> set (fileNameToTestPatterns (snd (update tr tp pass obj s)))" and "q \<in> set ps"
    with None assms have "map_of (testPatternsToMap s) q \<noteq> None"
      by (auto simp: update_fresh dest: indexInTableD)
    with None show "map_of (testPatternsToMap (snd (update tr tp pass obj s))) q \<noteq> None"
      by (simp add: update_fresh AList.update_conv')
  qed
next
  case (Some cm)
  let ?s1 = "s\<lparr>testPatternsToIsPass := AList.update tp pass (testPatternsToIsPass s)\<rparr>"
  have "indexInTable ?s1"
    using assms by (simp add: indexInTable_def)
  moreover have "map_of (testPatternsToMap ?s1) tp \<noteq> None"
    using Some by simp
  ultimately show ?thesis
    using Some by (simp add: update_known updateFiles_indexInTable)
qed

lemma update_indexHasVerdict:
  assumes "indexHasVerdict s"
  shows "indexHasVerdict (snd (update tr tp pass obj s))"
proof (cases "map_of (testPatternsToMap s) tp")
  case None
  show ?thesis
  proof (rule indexHasVerdictI)
    fix a ps q
    assume "(a, ps) \<in> set (fileNameToTestPatterns (snd (update tr tp pass obj s)))" and "q \<in> set ps"
    with None assms have "map_of (testPatternsToIsPass s) q \<noteq> None"
      by (auto simp: update_fresh dest: indexHasVerdictD)
    then show "map_of (testPatternsToIsPass (snd (update tr tp pass obj s))) q \<noteq> None"
      by (simp add: update_verdicts AList.update_conv')
  qed
next
  case (Some cm)
  let ?s1 = "s\<lparr>testPatternsToIsPass := AList.update tp pass (testPatternsToIsPass s)\<rparr>"
  have "indexHasVerdict ?s1"
  proof (rule indexHasVerdictI)
    fix a ps q
    assume "(a, ps) \<in> set (fileNameToTestPatterns ?s1)" and "q \<in> set ps"
    with assms have "map_of (testPatternsToIsPass s) q \<noteq> None"
      by (auto dest: indexHasVerdictD)
    then show "map_of (testPatternsToIsPass ?s1) q \<noteq> None"
      by (simp add: AList.update_conv')
  qed
  moreover have "map_of (testPatternsToIsPass ?s1) tp \<noteq> None"
    by (simp add: AList.update_conv')
  ultimately show ?thesis
    using Some by (simp add: update_known updateFiles_indexHasVerdict)
qed

lemma setFileCoverage_indexInTable:
  assumes "indexInTable s"
  shows "indexInTable (snd (setFileCoverage tp filePath m s))"
proof (rule indexInTableI)
  fix a ps q
  assume "(a, ps) \<in> set (fileNameToTestPatterns (snd (setFileCoverage tp filePath m s)))"
    and "q \<in> set ps"
  with assms have "map_of (testPatternsToMap s) q \<noteq> None"
    by (auto simp: setFileCoverage_index dest: indexInTableD)
  then show "map_of (testPatternsToMap (snd (setFileCoverage tp filePath m s))) q \<noteq> None"
    by (rule setFileCoverage_table_mono)
qed

lemma setFileCoverage_indexHasVerdict:
  "indexHasVerdict s \<Longrightarrow> indexHasVerdict (snd (setFileCoverage tp filePath m s))"
  by (simp add: indexHasVerdict_def setFileCoverage_index setFileCoverage_verdicts)

lemma reset_indexInTable: "indexInTable (reset s)"
  by (simp add: indexInTable_def reset_def)

lemma reset_indexHasVerdict: "indexHasVerdict (reset s)"
  by (simp add: indexHasVerdict_def reset_def)

lemma reachable_indexInTable: "reachable tr s \<Longrightarrow> indexInTable s"
  by (induction rule: reachable.induct)
     (simp_all add: new_provider_def reset_indexInTable update_indexInTable
        setFileCoverage_indexInTable)

lemma reachable_indexHasVerdict: "reachable tr s \<Longrightarrow> indexHasVerdict s"
  by (induction rule: reachable.induct)
     (simp_all add: new_provider_def reset_indexHasVerdict update_indexHasVerdict
        setFileCoverage_indexHasVerdict)

lemma getFileCoverages_patterns:
  "map testPattern (getFileCoverages s filePath) =
     (case map_of (fileNameToTestPatterns s) filePath of Some ps \<Rightarrow> ps | None \<Rightarrow> [])"
  by (simp add: getFileCoverages_def Let_def comp_def)

text \<open>
  Claim C9. After \<open>update(p, true, cov)\<close> and then \<open>update(p, false, cov)\<close> the verdict
  stored for \<open>p\<close> is \<open>false\<close>: every call overwrites the verdict, whatever coverage it
  brings and whatever the state before.
\<close>

theorem verdict_overwrite:
  "getTestPatternIsPass (snd (update tr tp False obj2 (snd (update tr tp True obj1 s)))) tp = Some False"
  by (simp add: getTestPatternIsPass_def update_verdicts AList.update_conv')

text \<open>
  Claim C7. \<open>update(p, v, undefined)\<close> returns normally, leaves the reverse index as it
  was and leaves the file coverage stored for every pattern and file as it was, and the
  verdict of \<open>p\<close> is \<open>v\<close> afterwards. The transform of the empty coverage map is taken to
  be empty. The table itself is the same for a known pattern; a pattern without an entry
  gets an empty coverage map, which holds no file coverage.
\<close>

theorem absent_coverage_noop:
  assumes "tr (createCoverageMap None) = []"
  shows "fst (update tr tp pass None s) = None
    \<and> fileNameToTestPatterns (snd (update tr tp pass None s)) = fileNameToTestPatterns s
    \<and> (\<forall>q a. getTestPatternFileCoverage (snd (update tr tp pass None s)) q a =
              getTestPatternFileCoverage s q a)
    \<and> testPatternsToMap (snd (update tr tp pass None s)) =
        (case map_of (testPatternsToMap s) tp of
           Some cm \<Rightarrow> testPatternsToMap s
         | None \<Rightarrow> AList.update tp [] (testPatternsToMap s))
    \<and> getTestPatternIsPass (snd (update tr tp pass None s)) tp = Some pass"
proof (cases "map_of (testPatternsToMap s) tp")
  case None
  with assms show ?thesis
    by (simp add: update_fresh getTestPatternFileCoverage_def getTestPatternIsPass_def
        AList.update_conv')
next
  case (Some cm)
  with assms show ?thesis
    by (simp add: update_known files_def getTestPatternFileCoverage_def getTestPatternIsPass_def
        AList.update_conv')
qed

theorem absent_coverage_noop_witness:
  "id (createCoverageMap None) = []
   \<and> fileNameToTestPatterns (snd (update id ''A'' False None storeA2)) = [(''f'', [''A''])]
   \<and> getTestPatternFileCoverage (snd (update id ''A'' False None storeA2)) ''A'' ''f'' = Some fcA
   \<and> getTestPatternIsPass (snd (update id ''A'' False None storeA2)) ''A'' = Some False"
proof -
  have h: "id (createCoverageMap None) = []" by (simp add: createCoverageMap_def)
  have idx: "fileNameToTestPatterns storeA2 = [(''f'', [''A''])]" by code_simp
  have cov: "getTestPatternFileCoverage storeA2 ''A'' ''f'' = Some fcA" by code_simp
  from absent_coverage_noop [of id "''A''" False storeA2] h idx cov show ?thesis by simp
qed

text \<open>
  Claim C8. \<open>reset\<close> establishes, and \<open>update\<close> and \<open>setFileCoverage\<close> preserve (also when
  \<open>setFileCoverage\<close> throws), that every pattern in the reverse index has an entry in the
  pattern table.
\<close>

theorem reverse_index_within_table:
  assumes "indexInTable s"
  shows "indexInTable (reset s)
    \<and> indexInTable (snd (update tr tp pass obj s))
    \<and> indexInTable (snd (setFileCoverage tp filePath m s))"
  using assms
  by (simp add: reset_indexInTable update_indexInTable setFileCoverage_indexInTable)

theorem reverse_index_within_table_witness:
  "indexInTable storeA2
   \<and> fileNameToTestPatterns storeA2 = [(''f'', [''A''])]
   \<and> indexInTable (reset storeA2)
   \<and> indexInTable (snd (update id ''B'' False (Some covB) storeA2))
   \<and> indexInTable (snd (setFileCoverage ''B'' ''g'' covB storeA2))"
proof -
  have h: "indexInTable storeA2" by code_simp
  have idx: "fileNameToTestPatterns storeA2 = [(''f'', [''A''])]" by code_simp
  from reverse_index_within_table [OF h, of id "''B''" False "Some covB" "''g''" covB] h idx
  show ?thesis by simp
qed

text \<open>
  Claim C10. In every reachable state each entry that \<open>getFileCoverages\<close> returns has a
  defined \<open>isPass\<close>.
\<close>

theorem entries_have_verdict:
  assumes "reachable tr s"
  shows "\<forall>c \<in> set (getFileCoverages s filePath). isPass c \<noteq> None"
proof
  fix c
  assume "c \<in> set (getFileCoverages s filePath)"
  then obtain ps where ps: "map_of (fileNameToTestPatterns s) filePath = Some ps"
    and c: "testPattern c \<in> set ps" "isPass c = getTestPatternIsPass s (testPattern c)"
    by (cases "map_of (fileNameToTestPatterns s) filePath")
       (auto simp: getFileCoverages_def Let_def)
  from ps have "(filePath, ps) \<in> set (fileNameToTestPatterns s)"
    by (rule map_of_SomeD)
  with reachable_indexHasVerdict [OF assms] c show "isPass c \<noteq> None"
    by (auto simp: getTestPatternIsPass_def dest: indexHasVerdictD)
qed

theorem entries_have_verdict_witness:
  "reachable id storeA2
   \<and> map testPattern (getFileCoverages storeA2 ''f'') = [''A'']
   \<and> list_all (\<lambda>c. isPass c \<noteq> None) (getFileCoverages storeA2 ''f'')"
proof -
  have h: "reachable id storeA2"
    unfolding storeA2_def storeA1_def by (intro reachable.after_update reachable.constructed)
  have "map testPattern (getFileCoverages storeA2 ''f'') = [''A'']" by code_simp
  with entries_have_verdict [OF h, of "''f''"] h show ?thesis by (simp add: list_all_iff)
qed

text \<open>
  Claim C2. Let \<open>p\<close> be a pattern without an entry in the pattern table of a reachable
  state. After one \<open>update\<close> for \<open>p\<close>, \<open>getFileCoverages(f)\<close> has no entry for \<open>p\<close>, whatever
  the report covers; after a second \<open>update\<close> for \<open>p\<close> whose transformed report covers \<open>f\<close>, it
  has one.
\<close>

theorem reverse_index_timing:
  assumes "reachable tr s" and "map_of (testPatternsToMap s) tp = None"
    and "filePath \<in> set (files (tr cov2))"
  shows "tp \<notin> set (map testPattern (getFileCoverages (snd (update tr tp v1 (Some cov1) s)) filePath))
    \<and> tp \<in> set (map testPattern (getFileCoverages
               (snd (update tr tp v2 (Some cov2) (snd (update tr tp v1 (Some cov1) s)))) filePath))"
proof
  let ?s1 = "snd (update tr tp v1 (Some cov1) s)"
  have idx: "fileNameToTestPatterns ?s1 = fileNameToTestPatterns s"
    using assms(2) by (simp add: update_fresh)
  show "tp \<notin> set (map testPattern (getFileCoverages ?s1 filePath))"
  proof (cases "map_of (fileNameToTestPatterns s) filePath")
    case None
    with idx show ?thesis by (simp add: getFileCoverages_patterns)
  next
    case (Some ps)
    then have "(filePath, ps) \<in> set (fileNameToTestPatterns s)"
      by (rule map_of_SomeD)
    with reachable_indexInTable [OF assms(1)] assms(2) have "tp \<notin> set ps"
      by (auto dest: indexInTableD)
    with Some idx show ?thesis by (simp add: getFileCoverages_patterns)
  qed
  let ?m = "tr (createCoverageMap (Some cov2))"
  obtain cm where cm: "map_of (testPatternsToMap ?s1) tp = Some cm"
    using update_table_self [of tr tp v1 "Some cov1" s] by auto
  let ?s1' = "?s1\<lparr>testPatternsToIsPass := AList.update tp v2 (testPatternsToIsPass ?s1)\<rparr>"
  have second: "update tr tp v2 (Some cov2) ?s1 = updateFiles tp ?m (files ?m) ?s1'"
    using cm by (rule update_known)
  have ok: "fst (updateFiles tp ?m (files ?m) ?s1') = None"
    by (rule updateFiles_ok) (simp add: files_def)
  have "filePath \<in> set (files ?m)"
    using assms(3) by (simp add: createCoverageMap_def)
  from updateFiles_registers [OF this ok] second
  show "tp \<in> set (map testPattern (getFileCoverages (snd (update tr tp v2 (Some cov2) ?s1)) filePath))"
    by (auto simp: getFileCoverages_patterns)
qed

theorem reverse_index_timing_witness:
  "reachable id new_provider \<and> map_of (testPatternsToMap new_provider) ''A'' = None
   \<and> ''f'' \<in> set (files (id covA))
   \<and> map testPattern (getFileCoverages storeA1 ''f'') = []
   \<and> ''A'' \<in> set (map testPattern (getFileCoverages storeA2 ''f''))"
proof -
  have h1: "reachable id new_provider" by (rule reachable.constructed)
  have h2: "map_of (testPatternsToMap new_provider) ''A'' = None" by code_simp
  have h3: "''f'' \<in> set (files (id covA))" by (simp add: files_def covA_def)
  have e: "map testPattern (getFileCoverages storeA1 ''f'') = []" by code_simp
  from reverse_index_timing [where tr = id and s = new_provider and tp = "''A''"
      and filePath = "''f''" and ?cov1.0 = covA and ?cov2.0 = covA and ?v1.0 = True and ?v2.0 = True]
    h1 h2 h3 e
  show ?thesis by (simp add: storeA1_def storeA2_def)
qed

text \<open>
  Claim C4. After \<open>update(p, v, covA)\<close> and then \<open>update(p, v, covB)\<close>, the coverage stored
  under \<open>p\<close> for a file of the second (transformed) report is that report's file coverage,
  whatever the first report held for the file: it is overwritten, not combined.
\<close>

theorem last_run_wins:
  assumes "map_of (tr cov2) filePath = Some fc2"
  shows "getTestPatternFileCoverage
           (snd (update tr tp v2 (Some cov2) (snd (update tr tp v1 (Some cov1) s)))) tp filePath
         = Some fc2"
proof -
  let ?s1 = "snd (update tr tp v1 (Some cov1) s)"
  let ?m = "tr (createCoverageMap (Some cov2))"
  obtain cm where cm: "map_of (testPatternsToMap ?s1) tp = Some cm"
    using update_table_self [of tr tp v1 "Some cov1" s] by auto
  let ?s1' = "?s1\<lparr>testPatternsToIsPass := AList.update tp v2 (testPatternsToIsPass ?s1)\<rparr>"
  have second: "update tr tp v2 (Some cov2) ?s1 = updateFiles tp ?m (files ?m) ?s1'"
    using cm by (rule update_known)
  have ok: "fst (updateFiles tp ?m (files ?m) ?s1') = None"
    by (rule updateFiles_ok) (simp add: files_def)
  have m: "?m = tr cov2" by (simp add: createCoverageMap_def)
  have "filePath \<in> set (files ?m)"
    using assms map_of_SomeD [OF assms] by (force simp: m files_def)
  from updateFiles_stored [OF this ok] second assms show ?thesis
    by (simp add: m)
qed

theorem last_run_wins_witness:
  "map_of (id covA) ''f'' = Some fcA \<and> map_of (id covB) ''f'' = Some fcB
   \<and> getLineCoverage fcA = [(10, 1), (20, 1)] \<and> getLineCoverage fcB = [(10, 1)]
   \<and> getTestPatternFileCoverage
        (snd (update id ''A'' True (Some covB) (snd (update id ''A'' True (Some covA) new_provider))))
        ''A'' ''f'' = Some fcB"
proof -
  have h: "map_of (id covB) ''f'' = Some fcB" by (simp add: covB_def)
  from last_run_wins [where tr = id and ?cov2.0 = covB and filePath = "''f''" and ?fc2.0 = fcB
      and tp = "''A''" and ?v1.0 = True and ?v2.0 = True and ?cov1.0 = covA and s = new_provider] h
  show ?thesis by (simp add: covA_def fcA_def fcB_def)
qed

section \<open>Properties of the line scoring\<close>

lemma js_add_zero: "js_add (Fin 0) x = x"
  by (cases x) simp_all

lemma count_foldl:
  "foldl (\<lambda>p c. p + (if P c then 1 else 0)) n xs = n + length (filter P xs)"
  by (induction xs arbitrary: n) simp_all

lemma totalSuccess_count: "totalSuccess entries = totalPassedRuns entries"
  by (simp add: totalSuccess_def totalPassedRuns_def count_foldl)

lemma totalFailed_count: "totalFailed entries = totalFailedRuns entries"
  by (simp add: totalFailed_def totalFailedRuns_def count_foldl)

lemma lineCoverages_entry:
  assumes "(line, r) \<in> set (lineCoverages s fileName lineCount onNo)"
  shows "\<exists>np nf. r = \<lparr>numOfFailedTests = nf, numOfPassTests = np,
            hue = hueOf (totalSuccess (getFileCoverages s fileName))
                    (totalFailed (getFileCoverages s fileName))
                    \<lparr>numOfFailedTests = nf, numOfPassTests = np, hue = None, isCovered = (0 < nf + np)\<rparr>,
            isCovered = (0 < nf + np)\<rparr>"
  using assms by (auto simp: lineCoverages_def Let_def firstPass_def)

lemma lineCoverages_lines:
  "map fst (lineCoverages s fileName lineCount onNo) = [1 .. lineCount]"
  by (simp add: lineCoverages_def Let_def firstPass_def comp_def split_def)

lemma score_bounds:
  assumes "0 < tp" and "0 < tf" and "0 < np + nf"
  shows "\<exists>q. score np tp nf tf = Fin q \<and> 0 \<le> q \<and> q \<le> 1"
proof -
  define x :: rat where "x = of_nat np / of_nat tp"
  define y :: rat where "y = of_nat nf / of_nat tf"
  have x0: "0 \<le> x" and y0: "0 \<le> y"
    by (simp_all add: x_def y_def)
  have "0 < x \<or> 0 < y"
    using assms by (cases "np = 0") (simp_all add: x_def y_def)
  with x0 y0 have pos: "0 < x + y" by linarith
  have "score np tp nf tf = Fin (x / (x + y))"
    using assms(1,2) pos by (simp add: score_def js_num_def x_def y_def)
  moreover have "0 \<le> x / (x + y)"
    using x0 pos by simp
  moreover have "x / (x + y) \<le> 1"
    using x0 y0 pos by (simp add: divide_le_eq_1)
  ultimately show ?thesis by blast
qed

lemma compareStatus_severity: "compareStatus a b \<le> 0 \<longleftrightarrow> severity b \<le> severity a"
  by (cases a; cases b) (simp_all add: compareStatus_def severity_def)

lemma set_insertBy: "set (insertBy cmp x ys) = insert x (set ys)"
  by (induction ys) auto

lemma set_sortBy: "set (sortBy cmp xs) = set xs"
  by (induction xs) (simp_all add: sortBy_def set_insertBy)

lemma insertBy_head:
  assumes "\<forall>y \<in> set ys. severity y \<le> severity (hd ys)"
  shows "\<forall>y \<in> set (insertBy compareStatus x ys).
           severity y \<le> severity (hd (insertBy compareStatus x ys))"
proof (cases ys)
  case Nil
  then show ?thesis by simp
next
  case (Cons y ys')
  show ?thesis
  proof (cases "compareStatus x y \<le> 0")
    case True
    then have "severity y \<le> severity x"
      by (simp add: compareStatus_severity)
    with assms Cons True show ?thesis
      by (auto intro: order_trans)
  next
    case False
    then have "severity x \<le> severity y"
      by (simp add: compareStatus_severity)
    with assms Cons False show ?thesis
      by (auto simp: set_insertBy)
  qed
qed

lemma sortBy_head:
  "\<forall>y \<in> set (sortBy compareStatus xs). severity y \<le> severity (hd (sortBy compareStatus xs))"
proof (induction xs)
  case Nil
  show ?case by (simp add: sortBy_def)
next
  case (Cons x xs)
  have "sortBy compareStatus (x # xs) = insertBy compareStatus x (sortBy compareStatus xs)"
    by (simp add: sortBy_def)
  with insertBy_head [OF Cons.IH, of x] show ?case by simp
qed

lemma statusList_nonempty: "statusList onNo fcov line \<noteq> []"
  by (auto simp: statusList_def Let_def split: option.splits)

lemma lineStatus_most_severe:
  "\<exists>st. lineStatus onNo fcov line = Some st \<and> st \<in> set (statusList onNo fcov line)
        \<and> (\<forall>c \<in> set (statusList onNo fcov line). severity c \<le> severity st)"
proof -
  let ?xs = "sortBy compareStatus (statusList onNo fcov line)"
  have "set ?xs = set (statusList onNo fcov line)"
    by (rule set_sortBy)
  moreover from this have "?xs \<noteq> []"
    using statusList_nonempty [of onNo fcov line] by auto
  then obtain st rest where xs: "?xs = st # rest"
    by (cases ?xs) auto
  moreover have "\<forall>y \<in> set ?xs. severity y \<le> severity (hd ?xs)"
    by (rule sortBy_head)
  ultimately show ?thesis
    by (auto simp: lineStatus_def)
qed

lemma statusList_function_uncovered:
  assumes "getFunctionCoverageByLine fcov line = Some fh" and "fh \<le> 0"
  shows "Uncovered \<in> set (statusList onNo fcov line)"
  using assms by (auto simp: statusList_def Let_def split: option.splits)

lemma severity_top: "severity Uncovered \<le> severity st \<Longrightarrow> st = Uncovered"
  by (cases st) (simp_all add: severity_def)

text \<open>
  Claim C1. For every line record that \<open>lineCoverages\<close> returns, \<open>isCovered\<close> is
  \<open>numOfPassTests + numOfFailedTests > 0\<close>; for a covered line the \<open>hue\<close> (the
  specification's suspiciousness) is the specification's score of the record's two
  tallies over the numbers of passing and failing entries of the file, and for a line that
  is not covered it is undefined.
\<close>

theorem suspiciousness_formula:
  assumes "(line, r) \<in> set (lineCoverages s fileName lineCount onNo)"
  shows "isCovered r = (0 < numOfPassTests r + numOfFailedTests r)
    \<and> hue r = (if isCovered r
               then Some (score (numOfPassTests r) (totalPassedRuns (getFileCoverages s fileName))
                            (numOfFailedTests r) (totalFailedRuns (getFileCoverages s fileName)))
               else None)"
proof -
  from lineCoverages_entry [OF assms] obtain np nf where
    r: "r = \<lparr>numOfFailedTests = nf, numOfPassTests = np,
            hue = hueOf (totalSuccess (getFileCoverages s fileName))
                    (totalFailed (getFileCoverages s fileName))
                    \<lparr>numOfFailedTests = nf, numOfPassTests = np, hue = None, isCovered = (0 < nf + np)\<rparr>,
            isCovered = (0 < nf + np)\<rparr>"
    by blast
  show ?thesis
    by (simp add: r hueOf_def score_def js_add_zero totalSuccess_count totalFailed_count add.commute)
qed

theorem suspiciousness_formula_witness:
  "(10, row10) \<in> set (lineCoverages storeAB2 ''f'' 20 None)
   \<and> totalPassedRuns (getFileCoverages storeAB2 ''f'') = 1
   \<and> totalFailedRuns (getFileCoverages storeAB2 ''f'') = 1
   \<and> isCovered row10 \<and> hue row10 = Some (score 1 1 1 1) \<and> score 1 1 1 1 = Fin (1 / 2)"
proof -
  have h: "(10, row10) \<in> set (lineCoverages storeAB2 ''f'' 20 None)" by code_simp
  have t: "totalPassedRuns (getFileCoverages storeAB2 ''f'') = 1"
    "totalFailedRuns (getFileCoverages storeAB2 ''f'') = 1" by code_simp+
  have v: "score 1 1 1 1 = Fin (1 / 2)" by code_simp
  from suspiciousness_formula [OF h] h t v show ?thesis by (simp add: row10_def)
qed

text \<open>
  Claim C3. When the line has a function hit count and a statement hit count, the status
  taken after the sort is a candidate of the status list and no candidate is more severe;
  with function hit count 0 and statement hit count 5 it is \<open>uncovered\<close>, and an entry with
  this file coverage leaves both tallies of the line as they are.
\<close>

theorem severity_resolution:
  assumes "getFunctionCoverageByLine fcov line = Some fh"
    and "map_of (getLineCoverage fcov) line = Some sh"
  shows "(\<exists>st. lineStatus onNo fcov line = Some st \<and> st \<in> set (statusList onNo fcov line)
            \<and> (\<forall>c \<in> set (statusList onNo fcov line). severity c \<le> severity st))
    \<and> (fh = 0 \<and> sh = 5 \<longrightarrow>
         lineStatus onNo fcov line = Some Uncovered
         \<and> (\<forall>acc c. fileCoverage c = Some fcov \<longrightarrow> countEntry onNo line acc c = acc))"
proof (intro conjI impI)
  show "\<exists>st. lineStatus onNo fcov line = Some st \<and> st \<in> set (statusList onNo fcov line)
            \<and> (\<forall>c \<in> set (statusList onNo fcov line). severity c \<le> severity st)"
    by (rule lineStatus_most_severe)
next
  assume hits: "fh = 0 \<and> sh = 5"
  from lineStatus_most_severe [of onNo fcov line] obtain st where
    st: "lineStatus onNo fcov line = Some st"
    and top: "\<forall>c \<in> set (statusList onNo fcov line). severity c \<le> severity st"
    by blast
  from statusList_function_uncovered [OF assms(1), of onNo] hits top
  have "severity Uncovered \<le> severity st" by simp
  then have "st = Uncovered" by (rule severity_top)
  with st show unc: "lineStatus onNo fcov line = Some Uncovered" by simp
  show "\<forall>acc c. fileCoverage c = Some fcov \<longrightarrow> countEntry onNo line acc c = acc"
    by (simp add: countEntry_def unc)
qed

theorem severity_resolution_witness:
  "getFunctionCoverageByLine fcFn 2 = Some 0 \<and> map_of (getLineCoverage fcFn) 2 = Some 5
   \<and> statusList None fcFn 2 = [Uncovered, Covered]
   \<and> lineStatus None fcFn 2 = Some Uncovered
   \<and> fileCoverage entryFn = Some fcFn
   \<and> countEntry None 2 (0, 0) entryFn = (0, 0)"
proof -
  have h1: "getFunctionCoverageByLine fcFn 2 = Some 0" by code_simp
  have h2: "map_of (getLineCoverage fcFn) 2 = Some 5" by code_simp
  have l: "statusList None fcFn 2 = [Uncovered, Covered]" by code_simp
  have e: "fileCoverage entryFn = Some fcFn" by (simp add: entryFn_def)
  from severity_resolution [OF h1 h2, of None] h1 h2 l e show ?thesis by simp
qed

text \<open>
  Claim C5. Pattern \<open>A\<close> (passed) covers lines 10 and 20 of \<open>f\<close>, pattern \<open>B\<close> (failed) covers
  line 10 only. After one \<open>update\<close> for each, \<open>getFileCoverages(f)\<close> is empty, because the
  first report of a pattern is not entered in the reverse index, and both lines get zero
  tallies and no \<open>hue\<close>. The records of the claim, 1 passed and 1 failed run with \<open>hue\<close> 0.5
  at line 10 and 1 passed and no failed run with \<open>hue\<close> 1 at line 20, are what
  \<open>lineCoverages\<close> returns once each pattern has reported a second time
  (\<open>monotonicity_scenario_twice_each\<close>).
\<close>

theorem monotonicity_scenario_once_each:
  "map_of (lineCoverages storeAB1 ''f'' 20 None) 10 =
     Some \<lparr>numOfFailedTests = 0, numOfPassTests = 0, hue = None, isCovered = False\<rparr>
   \<and> map_of (lineCoverages storeAB1 ''f'' 20 None) 20 =
     Some \<lparr>numOfFailedTests = 0, numOfPassTests = 0, hue = None, isCovered = False\<rparr>"
  by code_simp

lemma monotonicity_scenario_twice_each:
  "map_of (lineCoverages storeAB2 ''f'' 20 None) 10 =
     Some \<lparr>numOfFailedTests = 1, numOfPassTests = 1, hue = Some (Fin (1 / 2)), isCovered = True\<rparr>
   \<and> map_of (lineCoverages storeAB2 ''f'' 20 None) 20 =
     Some \<lparr>numOfFailedTests = 0, numOfPassTests = 1, hue = Some (Fin 1), isCovered = True\<rparr>"
  by code_simp

text \<open>
  Claim C6. For a covered line of a file with at least one passing and at least one
  failing entry, the \<open>hue\<close> is a finite number between 0 and 1.
\<close>

theorem suspiciousness_bounds:
  assumes "(line, r) \<in> set (lineCoverages s fileName lineCount onNo)" and "isCovered r"
    and "0 < totalSuccess (getFileCoverages s fileName)"
    and "0 < totalFailed (getFileCoverages s fileName)"
  shows "\<exists>q. hue r = Some (Fin q) \<and> 0 \<le> q \<and> q \<le> 1"
proof -
  from lineCoverages_entry [OF assms(1)] obtain np nf where
    r: "r = \<lparr>numOfFailedTests = nf, numOfPassTests = np,
            hue = hueOf (totalSuccess (getFileCoverages s fileName))
                    (totalFailed (getFileCoverages s fileName))
                    \<lparr>numOfFailedTests = nf, numOfPassTests = np, hue = None, isCovered = (0 < nf + np)\<rparr>,
            isCovered = (0 < nf + np)\<rparr>"
    by blast
  from assms(2) have cov: "0 < np + nf" by (simp add: r add.commute)
  have "hue r = Some (score np (totalSuccess (getFileCoverages s fileName)) nf
                        (totalFailed (getFileCoverages s fileName)))"
    using cov by (simp add: r hueOf_def score_def js_add_zero add.commute)
  with score_bounds [OF assms(3,4) cov] show ?thesis by simp
qed

theorem suspiciousness_bounds_witness:
  "(10, row10) \<in> set (lineCoverages storeAB2 ''f'' 20 None) \<and> isCovered row10
   \<and> 0 < totalSuccess (getFileCoverages storeAB2 ''f'')
   \<and> 0 < totalFailed (getFileCoverages storeAB2 ''f'')
   \<and> (\<exists>q. hue row10 = Some (Fin q) \<and> 0 \<le> q \<and> q \<le> 1)"
proof -
  have h: "(10, row10) \<in> set (lineCoverages storeAB2 ''f'' 20 None)" by code_simp
  have c: "isCovered row10" by (simp add: row10_def)
  have t1: "0 < totalSuccess (getFileCoverages storeAB2 ''f'')" by code_simp
  have t2: "0 < totalFailed (getFileCoverages storeAB2 ''f'')" by code_simp
  from suspiciousness_bounds [OF h c t1 t2] h c t1 t2 show ?thesis by simp
qed

end
